theory Spec2Isabelle
  imports Main
begin

section \<open>Python strings\<close>

text \<open>
  The module \<^verbatim>\<open>nose/util.py\<close> works on byte strings, modelled as \<^typ>\<open>string\<close>.
  The string methods it calls are written out here: \<^verbatim>\<open>s.startswith(x)\<close>,
  \<^verbatim>\<open>s.endswith(x)\<close>, \<^verbatim>\<open>s.rfind(c)\<close> (index of the last occurrence, -1 when there is
  none), \<^verbatim>\<open>s.rstrip(c)\<close>, \<^verbatim>\<open>s.split(c)\<close> and \<^verbatim>\<open>sep.join(xs)\<close>, each for a separator \<open>c\<close> of one
  character, as the source calls them.
\<close>

definition startswith :: "string \<Rightarrow> string \<Rightarrow> bool" where
  "startswith s x = (take (length x) s = x)"

definition endswith :: "string \<Rightarrow> string \<Rightarrow> bool" where
  "endswith s x = (length x \<le> length s \<and> drop (length s - length x) s = x)"

definition rfind :: "char \<Rightarrow> string \<Rightarrow> int" where
  "rfind c s =
     (if c \<in> set s
      then int (length s) - 1 - int (length (takeWhile (\<lambda>x. x \<noteq> c) (rev s)))
      else - 1)"

definition rstrip :: "char \<Rightarrow> string \<Rightarrow> string" where
  "rstrip c s = rev (dropWhile (\<lambda>x. x = c) (rev s))"

text \<open>
  \<^verbatim>\<open>s.split(c)\<close> cuts \<open>s\<close> at every occurrence of \<open>c\<close>, so it always has a first piece:
  \<open>pieces c s\<close> is that first piece and the list of the others.
\<close>

fun pieces :: "char \<Rightarrow> string \<Rightarrow> string \<times> string list" where
  "pieces c [] = ([], [])"
| "pieces c (x # xs) =
     (case pieces c xs of
        (w, ws) \<Rightarrow> if x = c then ([], w # ws) else (x # w, ws))"

definition str_split :: "char \<Rightarrow> string \<Rightarrow> string list" where
  "str_split c s = (case pieces c s of (w, ws) \<Rightarrow> w # ws)"

fun str_join :: "string \<Rightarrow> string list \<Rightarrow> string" where
  "str_join sep [] = []"
| "str_join sep [x] = x"
| "str_join sep (x # y # ys) = x @ sep @ str_join sep (y # ys)"

text \<open>
  \<^verbatim>\<open>"%s" % v\<close> for a value that is a string or \<^verbatim>\<open>None\<close>.
\<close>

definition format_s :: "string option \<Rightarrow> string" where
  "format_s v = (case v of None \<Rightarrow> ''None'' | Some s \<Rightarrow> s)"

text \<open>Whether \<open>x\<close> occurs in \<open>s\<close> as a contiguous substring (\<^verbatim>\<open>x in s\<close>).\<close>

fun contains :: "string \<Rightarrow> string \<Rightarrow> bool" where
  "contains [] x = (x = [])"
| "contains (c # s) x = (startswith (c # s) x \<or> contains s x)"

section \<open>The identifier pattern\<close>

text \<open>
  \<^verbatim>\<open>ident_re = re.compile(r'^[A-Za-z_][A-Za-z0-9_.]*$')\<close>, used through
  \<^verbatim>\<open>ident_re.match\<close>. In Python's \<^verbatim>\<open>re\<close>, \<^verbatim>\<open>$\<close> matches at the end of the string
  and also just before a newline that ends the string, which the model keeps.
\<close>

definition ident_start :: "char \<Rightarrow> bool" where
  "ident_start c =
     (c \<in> set ''ABCDEFGHIJKLMNOPQRSTUVWXYZabcdefghijklmnopqrstuvwxyz_'')"

definition ident_char :: "char \<Rightarrow> bool" where
  "ident_char c = (ident_start c \<or> c \<in> set ''0123456789.'')"

definition ident_re_match :: "string \<Rightarrow> bool" where
  "ident_re_match s =
     (case s of
        [] \<Rightarrow> False
      | c # r \<Rightarrow>
          ident_start c \<and>
          (list_all ident_char r \<or>
           (r \<noteq> [] \<and> last r = CHR 0x0A \<and> list_all ident_char (butlast r))))"

section \<open>The path functions of \<^verbatim>\<open>os.path\<close> (posixpath)\<close>

text \<open>
  The source calls \<^verbatim>\<open>os.path.split\<close>, \<^verbatim>\<open>dirname\<close>, \<^verbatim>\<open>basename\<close>, \<^verbatim>\<open>splitext\<close>,
  \<^verbatim>\<open>join\<close>, \<^verbatim>\<open>isabs\<close>, \<^verbatim>\<open>normpath\<close> and \<^verbatim>\<open>abspath\<close>. They are pure string
  functions of the Python 2 standard library (posixpath, with \<^verbatim>\<open>os.sep = '/'\<close>, which the
  source's own suffix \<^verbatim>\<open>'/__init__.py'\<close> presupposes), transcribed statement by statement;
  a slice \<^verbatim>\<open>p[:i]\<close> is \<open>take i p\<close> and \<^verbatim>\<open>p[i:]\<close> is \<open>drop i p\<close>.
\<close>

text \<open>
  \<^verbatim>\<open>i = p.rfind('/') + 1; head, tail = p[:i], p[i:]\<close>;
  \<^verbatim>\<open>if head and head != '/'*len(head): head = head.rstrip('/')\<close>.
\<close>

definition split :: "string \<Rightarrow> string \<times> string" where
  "split p =
     (let i = nat (rfind CHR ''/'' p + 1);
          head = take i p;
          tail = drop i p
      in (if head \<noteq> [] \<and> head \<noteq> replicate (length head) CHR ''/''
          then rstrip CHR ''/'' head else head, tail))"

definition dirname :: "string \<Rightarrow> string" where
  "dirname p = fst (split p)"

definition basename :: "string \<Rightarrow> string" where
  "basename p = drop (nat (rfind CHR ''/'' p + 1)) p"

text \<open>
  \<^verbatim>\<open>splitext\<close> (Python 2.6 and later): with \<^verbatim>\<open>sepIndex = p.rfind('/')\<close> and
  \<^verbatim>\<open>dotIndex = p.rfind('.')\<close>, the result is \<^verbatim>\<open>p[:dotIndex], p[dotIndex:]\<close> if
  \<^verbatim>\<open>dotIndex > sepIndex\<close> and some character of \<^verbatim>\<open>p[sepIndex+1:dotIndex]\<close> is not a dot
  (the library's loop over \<^verbatim>\<open>filenameIndex\<close>: leading dots are not an extension), and
  \<^verbatim>\<open>p, ''\<close> otherwise.
\<close>

definition splitext :: "string \<Rightarrow> string \<times> string" where
  "splitext p =
     (let sepIndex = rfind CHR ''/'' p;
          dotIndex = rfind CHR ''.'' p
      in if dotIndex > sepIndex \<and>
            (\<exists>c \<in> set (drop (nat (sepIndex + 1)) (take (nat dotIndex) p)). c \<noteq> CHR ''.'')
         then (take (nat dotIndex) p, drop (nat dotIndex) p)
         else (p, []))"

text \<open>\<^verbatim>\<open>os.path.join(a, b)\<close> with two arguments.\<close>

definition join :: "string \<Rightarrow> string \<Rightarrow> string" where
  "join a b =
     (if startswith b ''/'' then b
      else if a = [] \<or> endswith a ''/'' then a @ b
      else a @ ''/'' @ b)"

definition isabs :: "string \<Rightarrow> bool" where
  "isabs s = startswith s ''/''"

fun normpath_loop :: "nat \<Rightarrow> string list \<Rightarrow> string list \<Rightarrow> string list" where
  "normpath_loop initial_slashes [] new_comps = new_comps"
| "normpath_loop initial_slashes (cmp # comps) new_comps =
     (if cmp = [] \<or> cmp = ''.'' then normpath_loop initial_slashes comps new_comps
      else if cmp \<noteq> ''..'' \<or> (initial_slashes = 0 \<and> new_comps = []) \<or>
              (new_comps \<noteq> [] \<and> last new_comps = ''..'')
      then normpath_loop initial_slashes comps (new_comps @ [cmp])
      else if new_comps \<noteq> [] then normpath_loop initial_slashes comps (butlast new_comps)
      else normpath_loop initial_slashes comps new_comps)"

definition normpath :: "string \<Rightarrow> string" where
  "normpath path =
     (if path = [] then ''.''
      else
        let initial_slashes =
              (if startswith path ''/''
               then (if startswith path ''//'' \<and> \<not> startswith path ''///'' then 2 else 1)
               else (0::nat));
            comps = normpath_loop initial_slashes (str_split CHR ''/'' path) [];
            path' = replicate initial_slashes CHR ''/'' @ str_join ''/'' comps
        in if path' = [] then ''.'' else path')"

section \<open>Errors\<close>

text \<open>The exceptions the modelled functions raise, each with its message or key.\<close>

datatype error =
    AttributeError string
  | ValueError string
  | KeyError string
  | TypeError string
  | ImportError string

text \<open>
  The message of the \<^verbatim>\<open>AttributeError\<close> that CPython raises for a missing attribute is
  made of a description of the object (\<^verbatim>\<open>'module' object\<close>, \<^verbatim>\<open>type object 'Class'\<close>,
  \<^verbatim>\<open>'NoneType' object\<close>) and the attribute's name.
\<close>

definition no_attribute :: "string \<Rightarrow> string \<Rightarrow> string" where
  "no_attribute d part = d @ '' has no attribute '' @ [CHR 0x27] @ part @ [CHR 0x27]"

definition none_type :: string where
  "none_type = [CHR 0x27] @ ''NoneType'' @ [CHR 0x27] @ '' object''"

section \<open>The file system\<close>

text \<open>
  What the source asks of the operating system: \<^verbatim>\<open>os.path.exists\<close>, \<^verbatim>\<open>isdir\<close>,
  \<^verbatim>\<open>isfile\<close>, \<^verbatim>\<open>os.listdir\<close> and \<^verbatim>\<open>os.getcwd\<close>; and, for \<^verbatim>\<open>test_address\<close>, the
  registry \<^verbatim>\<open>sys.modules\<close>, of which only each module's \<^verbatim>\<open>__file__\<close> attribute is read.
\<close>

record env =
  path_exists :: "string \<Rightarrow> bool"
  isdir :: "string \<Rightarrow> bool"
  isfile :: "string \<Rightarrow> bool"
  listdir :: "string \<Rightarrow> string list"
  getcwd :: string
  sys_modules :: "string \<rightharpoonup> string option"

definition abspath :: "env \<Rightarrow> string \<Rightarrow> string" where
  "abspath e path = normpath (if isabs path then path else join (getcwd e) path)"

section \<open>\<^verbatim>\<open>src\<close> and \<^verbatim>\<open>file_like\<close>\<close>

text \<open>
  \<^verbatim>\<open>src(filename)\<close>: \<^verbatim>\<open>None\<close> is returned as it is; a name whose extension is
  \<^verbatim>\<open>.pyc\<close>, \<^verbatim>\<open>.pyo\<close> or \<^verbatim>\<open>.py\<close> becomes \<^verbatim>\<open>'.'.join((base, 'py'))\<close>.
\<close>

definition src :: "string option \<Rightarrow> string option" where
  "src filename =
     (case filename of
        None \<Rightarrow> None
      | Some f \<Rightarrow>
          (let (base, ext) = splitext f
           in if ext \<in> set [''.pyc'', ''.pyo'', ''.py'']
              then Some (str_join ''.'' [base, ''py''])
              else Some f))"

text \<open>
  \<^verbatim>\<open>file_like(name)\<close> returns the first true operand of its \<^verbatim>\<open>or\<close> chain; the callers
  only test its truth, so the model returns the truth value. A string is true when it is
  not empty.
\<close>

definition file_like :: "env \<Rightarrow> string \<Rightarrow> bool" where
  "file_like e name =
     (path_exists e name
      \<or> dirname name \<noteq> []
      \<or> endswith name ''.py''
      \<or> \<not> ident_re_match (fst (splitext name)))"

section \<open>Packages: \<^verbatim>\<open>ispackage\<close>, \<^verbatim>\<open>getfilename\<close>, \<^verbatim>\<open>getpackage\<close>\<close>

text \<open>
  \<^verbatim>\<open>ispackage(path)\<close>: the path is a directory and some entry \<open>e\<close> of its listing is a
  regular file with \<^verbatim>\<open>src(e) == '__init__.py'\<close>.
\<close>

definition ispackage :: "env \<Rightarrow> string \<Rightarrow> bool" where
  "ispackage e path =
     (isdir e path \<and>
      filter (\<lambda>x. isfile e (join path x) \<and> src (Some x) = Some ''__init__.py'')
        (listdir e path) \<noteq> [])"

text \<open>
  \<^verbatim>\<open>getfilename(package, relativeTo=None)\<close>: the first of \<^verbatim>\<open>path + '/__init__.py'\<close> and
  \<^verbatim>\<open>path + '.py'\<close> that exists, else \<^verbatim>\<open>None\<close>.
\<close>

definition getfilename :: "env \<Rightarrow> string \<Rightarrow> string option \<Rightarrow> string option" where
  "getfilename e package relativeTo =
     (let rel = (case relativeTo of None \<Rightarrow> getcwd e | Some r \<Rightarrow> r);
          path = join rel (str_join ''/'' (str_split CHR ''.'' package));
          suffixes = [''/__init__.py'', ''.py'']
      in find (path_exists e) (map (\<lambda>suffix. path @ suffix) suffixes))"

lemma length_rstrip_le: "length (rstrip c s) \<le> length s"
  by (simp add: rstrip_def length_dropWhile_le order_trans [OF length_dropWhile_le])

lemma split_length_le: "length (fst (split p)) + length (snd (split p)) \<le> length p"
proof -
  let ?i = "nat (rfind CHR ''/'' p + 1)"
  have "length (fst (split p)) \<le> length (take ?i p)"
    by (simp add: split_def Let_def length_rstrip_le del: length_take)
  moreover have "length (snd (split p)) = length (drop ?i p)"
    by (simp add: split_def Let_def)
  moreover have "length (take ?i p) + length (drop ?i p) = length p"
    by simp
  ultimately show ?thesis by linarith
qed

text \<open>
  The \<^verbatim>\<open>while part:\<close> loop of \<^verbatim>\<open>getpackage\<close>, on the loop variables \<open>path\<close>, \<open>part\<close>
  and \<open>mod_parts\<close>.
\<close>

function walk_up :: "env \<Rightarrow> string \<Rightarrow> string \<Rightarrow> string list \<Rightarrow> string list" where
  "walk_up e path part mod_parts =
     (if part = [] then mod_parts
      else if ispackage e (join path part)
      then walk_up e (fst (split path)) (snd (split path)) (mod_parts @ [part])
      else mod_parts)"
  by pat_completeness auto

termination
proof (relation "measure (\<lambda>(e, path, part, mod_parts). length path + (if part = [] then 0 else 1))")
  show "wf (measure (\<lambda>(e, path, part, mod_parts). length path + (if part = [] then 0 else 1)))"
    by simp
next
  fix e :: env and path part :: string and mod_parts :: "string list"
  assume "part \<noteq> []"
  then show "((e, fst (split path), snd (split path), mod_parts @ [part]), e, path, part, mod_parts)
        \<in> measure (\<lambda>(e, path, part, mod_parts). length path + (if part = [] then 0 else 1))"
    using split_length_le [of path] by (cases "snd (split path)") auto
qed

declare walk_up.simps [simp del]

text \<open>
  \<^verbatim>\<open>getpackage(filename)\<close>. \<^verbatim>\<open>src(None)\<close> is \<^verbatim>\<open>None\<close>, on which
  \<^verbatim>\<open>src_file.endswith\<close> raises \<^verbatim>\<open>AttributeError\<close>.
\<close>

definition getpackage :: "env \<Rightarrow> string option \<Rightarrow> error + string option" where
  "getpackage e filename =
     (case src filename of
        None \<Rightarrow> Inl (AttributeError (no_attribute none_type ''endswith''))
      | Some src_file \<Rightarrow>
          if \<not> endswith src_file ''.py'' \<and> \<not> ispackage e src_file then Inr None
          else
            let (base, ext) = splitext (basename src_file);
                mod_parts = (if base = ''__init__'' then [] else [base]);
                (path, part) = split (fst (split src_file))
            in Inr (Some (str_join ''.'' (rev (walk_up e path part mod_parts)))))"

section \<open>\<^verbatim>\<open>resolve_name\<close>\<close>

text \<open>
  The interpreter's \<^verbatim>\<open>__import__\<close> and \<^verbatim>\<open>getattr\<close> are parameters: \<open>imp name\<close> is what
  \<^verbatim>\<open>__import__(name)\<close> returns or raises, \<open>getattr obj part\<close> what \<^verbatim>\<open>getattr(obj, part)\<close>
  returns or raises. Objects are of any type \<open>'o\<close>; Python's \<^verbatim>\<open>None\<close> is \<open>None\<close>.

  The \<^verbatim>\<open>while parts_copy:\<close> loop: only \<^verbatim>\<open>ImportError\<close> is caught; it is raised again when
  the last component has been dropped.
\<close>

function import_loop :: "(string \<Rightarrow> error + 'o) \<Rightarrow> string list \<Rightarrow> error + 'o option" where
  "import_loop imp parts_copy =
     (if parts_copy = [] then Inr None
      else
        (case imp (str_join ''.'' parts_copy) of
           Inr module \<Rightarrow> Inr (Some module)
         | Inl (ImportError msg) \<Rightarrow>
             if butlast parts_copy = [] then Inl (ImportError msg)
             else import_loop imp (butlast parts_copy)
         | Inl err \<Rightarrow> Inl err))"
  by pat_completeness auto
termination
  by (relation "measure (\<lambda>(imp, parts_copy). length parts_copy)") auto

declare import_loop.simps [simp del]

text \<open>The \<^verbatim>\<open>for part in parts: obj = getattr(obj, part)\<close> loop.\<close>

fun attr_walk :: "('o \<Rightarrow> string \<Rightarrow> error + 'o) \<Rightarrow> 'o \<Rightarrow> string list \<Rightarrow> error + 'o" where
  "attr_walk getattr obj [] = Inr obj"
| "attr_walk getattr obj (part # parts) =
     (case getattr obj part of
        Inl err \<Rightarrow> Inl err
      | Inr obj' \<Rightarrow> attr_walk getattr obj' parts)"

text \<open>
  \<^verbatim>\<open>getattr(None, part)\<close> raises \<^verbatim>\<open>AttributeError\<close>; the walk starts from \<^verbatim>\<open>None\<close> only if
  the import loop was never entered.
\<close>

definition resolve_name ::
  "(string \<Rightarrow> error + 'o) \<Rightarrow> ('o \<Rightarrow> string \<Rightarrow> error + 'o) \<Rightarrow> string \<Rightarrow> 'o option
     \<Rightarrow> error + 'o option" where
  "resolve_name imp getattr name module =
     (let parts = str_split CHR ''.'' name
      in case module of
           Some m \<Rightarrow> map_sum id Some (attr_walk getattr m parts)
         | None \<Rightarrow>
             (case import_loop imp parts of
                Inl err \<Rightarrow> Inl err
              | Inr None \<Rightarrow>
                  (case tl parts of
                     [] \<Rightarrow> Inr None
                   | part # _ \<Rightarrow> Inl (AttributeError (no_attribute none_type part)))
              | Inr (Some m) \<Rightarrow> map_sum id Some (attr_walk getattr m (tl parts))))"

section \<open>\<^verbatim>\<open>split_test_name\<close>\<close>

type_synonym address = "string option \<times> string option \<times> string option"

text \<open>
  The end of \<^verbatim>\<open>split_test_name\<close>, from \<^verbatim>\<open>if file_or_mod:\<close> on.
\<close>

definition classify :: "env \<Rightarrow> string \<Rightarrow> string option \<Rightarrow> address" where
  "classify e file_or_mod fn =
     (if file_or_mod \<noteq> [] then
        (if file_like e file_or_mod then (Some (normpath file_or_mod), None, fn)
         else (None, Some file_or_mod, fn))
      else (None, None, fn))"

text \<open>
  The message of the \<^verbatim>\<open>ValueError\<close> raised for "nonsense like foo:bar:baz": the three
  adjacent string literals of the source, which are not followed by any \<^verbatim>\<open>%\<close> operator.
\<close>

definition parse_error_message :: string where
  "parse_error_message =
     ''Test name '' @ [CHR 0x27] @ ''%s'' @ [CHR 0x27] @ '' could not be parsed. Please '' @
     ''format test names as path:callable or '' @
     ''module:callable.''"

text \<open>
  \<^verbatim>\<open>split_test_name(test)\<close>. Unpacking \<^verbatim>\<open>test.split(':')\<close> into two names raises
  \<^verbatim>\<open>ValueError\<close> when there are more than two pieces; the first unpacking is inside
  \<^verbatim>\<open>try ... except ValueError\<close>, the one on \<open>tail\<close> is not. \<^verbatim>\<open>parts[0]\<close> is \<open>hd parts\<close>:
  a split always has a first piece (\<open>str_split_nonempty\<close> below).
\<close>

definition split_test_name :: "env \<Rightarrow> string \<Rightarrow> error + address" where
  "split_test_name e test =
     (if CHR '':'' \<notin> set test then
        (if file_like e test then Inr (Some (normpath test), None, None)
         else Inr (None, Some test, None))
      else
        let (head, tail) = split test in
        if head = [] then
          (case str_split CHR '':'' test of
             [file_or_mod, fn] \<Rightarrow>
               if file_like e fn then Inr (classify e test None)
               else Inr (classify e file_or_mod (Some fn))
           | parts \<Rightarrow>
               if length (hd parts) = 1
               then Inr (classify e (str_join '':'' (butlast parts)) (Some (last parts)))
               else Inl (ValueError parse_error_message))
        else if tail = [] then Inr (classify e test None)
        else if CHR '':'' \<in> set tail then
          (case str_split CHR '':'' tail of
             [file_part, fn] \<Rightarrow> Inr (classify e (str_join ''/'' [head, file_part]) (Some fn))
           | _ \<Rightarrow> Inl (ValueError ''too many values to unpack''))
        else Inr (classify e (str_join ''/'' [head, tail]) None))"

section \<open>\<^verbatim>\<open>test_address\<close>\<close>

text \<open>
  A runtime entity, as far as \<^verbatim>\<open>test_address\<close> looks at it: what calling its
  \<^verbatim>\<open>address\<close> attribute gives (\<open>None\<close> when it has no such attribute), and the attributes
  read for its type. An attribute read with a default of \<^verbatim>\<open>None\<close> is an option.
\<close>

datatype entity =
    Entity (address_method: "(error + address) option") (by_type: shape)
and shape =
    ModuleType (file_attr: "string option") (name_attr: "string option")
  | FunctionOrClass (module_attr: "string option") (name_attr: "string option")
  | InstanceType (class_attr: entity)
  | MethodType (im_class: entity) (func_name: string)
  | FunctionTestCase (testFunc: entity)
  | TestCase (class_attr: entity) (legacy_testMethodName: "string option")
      (testMethodName: "string option")
  | Unknown (str_test: string) (str_type: string)

text \<open>
  \<^verbatim>\<open>test_address(test)\<close>: first \<^verbatim>\<open>test.address()\<close>, of which only an
  \<^verbatim>\<open>AttributeError\<close> is caught; then the dispatch on \<^verbatim>\<open>type(test)\<close>, in the source's order.
  A test case with neither \<^verbatim>\<open>_TestCase__testMethodName\<close> nor \<^verbatim>\<open>_testMethodName\<close> raises the
  \<^verbatim>\<open>AttributeError\<close> of the second read, recorded here by the attribute's name.
\<close>

fun test_address :: "env \<Rightarrow> entity \<Rightarrow> error + address"
and dispatch :: "env \<Rightarrow> shape \<Rightarrow> error + address" where
  "test_address e (Entity am t) =
     (case am of
        Some (Inr adr) \<Rightarrow> Inr adr
      | Some (Inl (AttributeError _)) \<Rightarrow> dispatch e t
      | Some (Inl err) \<Rightarrow> Inl err
      | None \<Rightarrow> dispatch e t)"
| "dispatch e (ModuleType file module) = Inr (file, module, None)"
| "dispatch e (FunctionOrClass module call) =
     (case module of
        None \<Rightarrow> Inr (None, None, call)
      | Some mname \<Rightarrow>
          (case sys_modules e mname of
             None \<Rightarrow> Inl (KeyError mname)
           | Some file \<Rightarrow> Inr (map_option (abspath e) file, Some mname, call)))"
| "dispatch e (InstanceType cls) = test_address e cls"
| "dispatch e (MethodType cls nm) =
     (case test_address e cls of
        Inl err \<Rightarrow> Inl err
      | Inr (f, m, c) \<Rightarrow> Inr (f, m, Some (format_s c @ ''.'' @ nm)))"
| "dispatch e (FunctionTestCase func) = test_address e func"
| "dispatch e (TestCase cls legacy current) =
     (case test_address e cls of
        Inl err \<Rightarrow> Inl err
      | Inr (f, m, c) \<Rightarrow>
          (case legacy of
             Some method_name \<Rightarrow> Inr (f, m, Some (format_s c @ ''.'' @ method_name))
           | None \<Rightarrow>
               (case current of
                  Some method_name \<Rightarrow> Inr (f, m, Some (format_s c @ ''.'' @ method_name))
                | None \<Rightarrow> Inl (AttributeError ''_testMethodName''))))"
| "dispatch e (Unknown s t) =
     Inl (TypeError (''I don'' @ [CHR 0x27] @ ''t know what '' @ s @ '' is ('' @ t @ '')''))"

section \<open>The module name as the specification describes it\<close>

text \<open>
  The specification's account of \<^verbatim>\<open>getpackage\<close>, to be compared with the source's loop.
  The chain of a directory: while the directory is a package directory, its name is put in
  front of what has been collected and the walk moves to its parent; the walk stops, adding
  nothing, at the first directory that is not a package directory (or has no name). The
  directory is asked about under the path that the source asks about, its parent joined with
  its name, which on a file system is the same directory.
\<close>

function package_chain :: "env \<Rightarrow> string \<Rightarrow> string list" where
  "package_chain e dir =
     (if snd (split dir) = [] then []
      else if ispackage e (join (fst (split dir)) (snd (split dir)))
      then package_chain e (fst (split dir)) @ [snd (split dir)]
      else [])"
  by pat_completeness auto
termination
proof (relation "measure (\<lambda>(e, dir). length dir)")
  show "wf (measure (\<lambda>(e, dir). length dir))" by simp
next
  fix e :: env and dir :: string
  assume "snd (split dir) \<noteq> []"
  then show "((e, fst (split dir)), e, dir) \<in> measure (\<lambda>(e, dir). length dir)"
    using split_length_le [of dir] by (cases "snd (split dir)") auto
qed

declare package_chain.simps [simp del]

text \<open>
  The leaf is the stem of the file, or nothing when the stem is \<^verbatim>\<open>__init__\<close>; the name is
  the chain of the parent directory, then the leaf, joined by dots.
\<close>

definition module_name_from_path :: "env \<Rightarrow> string \<Rightarrow> string option" where
  "module_name_from_path e path =
     (case src (Some path) of
        None \<Rightarrow> None
      | Some base \<Rightarrow>
          if \<not> endswith base ''.py'' \<and> \<not> ispackage e base then None
          else
            let stem = fst (splitext (basename base));
                leaf = (if stem = ''__init__'' then [] else [stem])
            in Some (str_join ''.'' (package_chain e (fst (split base)) @ leaf)))"

section \<open>Files below a package root\<close>

text \<open>
  To state the round trip between paths and module names: a plain name is not empty and has
  neither a slash nor a dot; \<open>dir_of R [c1, ..., cn]\<close> is the path \<^verbatim>\<open>R/c1/.../cn\<close>, and
  \<open>dirs_below R [c1, ..., cn]\<close> lists \<^verbatim>\<open>R/c1\<close>, \<^verbatim>\<open>R/c1/c2\<close>, up to \<^verbatim>\<open>R/c1/.../cn\<close>.
\<close>

definition plain_name :: "string \<Rightarrow> bool" where
  "plain_name c = (c \<noteq> [] \<and> CHR ''/'' \<notin> set c \<and> CHR ''.'' \<notin> set c)"

fun dir_of :: "string \<Rightarrow> string list \<Rightarrow> string" where
  "dir_of R [] = R"
| "dir_of R (c # cs) = dir_of (R @ CHR ''/'' # c) cs"

fun dirs_below :: "string \<Rightarrow> string list \<Rightarrow> string list" where
  "dirs_below R [] = []"
| "dirs_below R (c # cs) = (R @ CHR ''/'' # c) # dirs_below (R @ CHR ''/'' # c) cs"

section \<open>Example environments\<close>

text \<open>
  A file system given by the paths of its directories and of its regular files, a working
  directory and a module registry; used to run the model on concrete inputs. A directory
  lists the basenames of the paths whose directory part it is.
\<close>

definition mk_env ::
  "string list \<Rightarrow> string list \<Rightarrow> string \<Rightarrow> (string \<times> string option) list \<Rightarrow> env" where
  "mk_env dirs files cwd mods =
     \<lparr> path_exists = (\<lambda>p. p \<in> set (dirs @ files)),
       isdir = (\<lambda>p. p \<in> set dirs),
       isfile = (\<lambda>p. p \<in> set files),
       listdir = (\<lambda>p. map basename
                   (filter (\<lambda>x. basename x \<noteq> [] \<and> fst (split x) = p) (dirs @ files))),
       getcwd = cwd,
       sys_modules = map_of mods \<rparr>"

definition env_work :: env where
  "env_work = mk_env [''/'', ''/work''] [] ''/work'' [(''foo.bar'', Some ''foo/bar.py'')]"

text \<open>Two package directories, \<^verbatim>\<open>pkg\<close> and \<^verbatim>\<open>pkg/subpkg\<close>, below the working directory.\<close>

definition env_pkg :: env where
  "env_pkg = mk_env [''pkg'', ''pkg/subpkg''] [''pkg/__init__.py'', ''pkg/subpkg/__init__.py'']
     ''/work'' []"

text \<open>
  A project whose working directory \<^verbatim>\<open>/proj/pkg\<close> is a package directory, and a source
  file outside it.
\<close>

definition env_proj :: env where
  "env_proj = mk_env [''/'', ''/other'', ''/proj'', ''/proj/pkg'']
     [''/other/foo.py'', ''/proj/pkg/__init__.py'', ''/proj/pkg/foo.py''] ''/proj/pkg'' []"

section \<open>An example interpreter\<close>

text \<open>
  Objects with a description and attributes, to run \<^verbatim>\<open>resolve_name\<close> on. \<open>py_getattr\<close>
  raises the \<^verbatim>\<open>AttributeError\<close> of CPython, whose message is made of the object's type
  and the attribute's name: \<^verbatim>\<open>'module' object has no attribute 'x'\<close>,
  \<^verbatim>\<open>type object 'Class' has no attribute 'x'\<close>. \<open>py_import pkg\<close> imports \<^verbatim>\<open>pkg\<close> and
  \<^verbatim>\<open>pkg.mod\<close> only and returns the top-level package \<open>pkg\<close> for both, as
  \<^verbatim>\<open>__import__\<close> does; \<open>pkg_of cls\<close> is a package whose module \<^verbatim>\<open>mod\<close> holds the class
  \<open>cls\<close> under the name \<^verbatim>\<open>Class\<close>.
\<close>

datatype pyobj = PyObj (describe: string) (attributes: "(string \<times> pyobj) list")

definition py_getattr :: "pyobj \<Rightarrow> string \<Rightarrow> error + pyobj" where
  "py_getattr obj part =
     (case map_of (attributes obj) part of
        Some v \<Rightarrow> Inr v
      | None \<Rightarrow> Inl (AttributeError (no_attribute (describe obj) part)))"

definition py_import :: "pyobj \<Rightarrow> string \<Rightarrow> error + pyobj" where
  "py_import pkg nm =
     (if nm \<in> set [''pkg'', ''pkg.mod''] then Inr pkg
      else Inl (ImportError (''No module named '' @ last (str_split CHR ''.'' nm))))"

definition the_method :: pyobj where
  "the_method = PyObj ([CHR 0x27] @ ''instancemethod'' @ [CHR 0x27] @ '' object'') []"

definition class_type :: string where
  "class_type = ''type object '' @ [CHR 0x27] @ ''Class'' @ [CHR 0x27]"

definition pkg_of :: "pyobj \<Rightarrow> pyobj" where
  "pkg_of cls =
     PyObj ([CHR 0x27] @ ''module'' @ [CHR 0x27] @ '' object'')
       [(''mod'', PyObj ([CHR 0x27] @ ''module'' @ [CHR 0x27] @ '' object'') [(''Class'', cls)])]"

section \<open>Blank fields and anonymous entities\<close>

text \<open>
  An entity is anonymous when nothing \<^verbatim>\<open>test_address\<close> reads from it is there: its own
  \<^verbatim>\<open>address()\<close> answers with the all-\<^verbatim>\<open>None\<close> triple, or it is a module without
  \<^verbatim>\<open>__file__\<close> and \<^verbatim>\<open>__name__\<close>, a function or class without \<^verbatim>\<open>__module__\<close> and
  \<^verbatim>\<open>__name__\<close>, or an instance or function test case of such a one.
\<close>

fun anonymous :: "entity \<Rightarrow> bool"
and anonymous_shape :: "shape \<Rightarrow> bool" where
  "anonymous (Entity am t) =
     (case am of
        Some (Inr adr) \<Rightarrow> adr = (None, None, None)
      | Some (Inl (AttributeError _)) \<Rightarrow> anonymous_shape t
      | Some (Inl err) \<Rightarrow> False
      | None \<Rightarrow> anonymous_shape t)"
| "anonymous_shape (ModuleType file module) = (file = None \<and> module = None)"
| "anonymous_shape (FunctionOrClass module call) = (module = None \<and> call = None)"
| "anonymous_shape (InstanceType cls) = anonymous cls"
| "anonymous_shape (MethodType cls nm) = False"
| "anonymous_shape (FunctionTestCase func) = anonymous func"
| "anonymous_shape (TestCase cls legacy current) = False"
| "anonymous_shape (Unknown s t) = False"

text \<open>A field of an address is blank when it is \<^verbatim>\<open>None\<close> or the empty string.\<close>

definition blank :: "string option \<Rightarrow> bool" where
  "blank v = (v = None \<or> v = Some [])"

section \<open>Facts about the string and path functions\<close>

lemma rfind_none: "c \<notin> set s \<Longrightarrow> rfind c s = - 1"
  by (simp add: rfind_def)

lemma takeWhile_neq_append:
  "c \<notin> set t \<Longrightarrow> takeWhile (\<lambda>x. x \<noteq> c) (t @ ys) = t @ takeWhile (\<lambda>x. x \<noteq> c) ys"
  by (induction t) auto

lemma rfind_last: "c \<notin> set t \<Longrightarrow> rfind c (h @ c # t) = int (length h)"
proof -
  assume "c \<notin> set t"
  then have "takeWhile (\<lambda>x. x \<noteq> c) (rev t @ c # rev h) = rev t"
    by (simp add: takeWhile_neq_append)
  then show ?thesis by (simp add: rfind_def)
qed

lemma rfind_append_notin: "c \<notin> set t \<Longrightarrow> rfind c (h @ t) = rfind c h"
  by (simp add: rfind_def takeWhile_neq_append)

lemma rfind_less: "rfind c s < int (length s)"
  by (simp add: rfind_def)

lemma rfind_ge: "- 1 \<le> rfind c s"
proof (cases "c \<in> set s")
  case True
  then obtain h t where "s = h @ c # t" "c \<notin> set t"
    by (meson split_list_last)
  then show ?thesis by (simp add: rfind_last)
next
  case False
  then show ?thesis by (simp add: rfind_def)
qed

lemma cut_none: "c \<notin> set s \<Longrightarrow> nat (rfind c s + 1) = 0"
  by (simp add: rfind_none)

lemma cut_last: "c \<notin> set t \<Longrightarrow> nat (rfind c (h @ c # t) + 1) = Suc (length h)"
  by (simp add: rfind_last)

lemma rstrip_snoc: "rstrip c (h @ [c]) = rstrip c h"
  by (simp add: rstrip_def)

lemma rstrip_id: "h \<noteq> [] \<Longrightarrow> last h \<noteq> c \<Longrightarrow> rstrip c h = h"
  by (cases h rule: rev_cases) (simp_all add: rstrip_def)

lemma all_same_iff: "(\<forall>x \<in> set s. x = c) \<longleftrightarrow> s = replicate (length s) c"
  by (induction s) auto

lemma rstrip_empty_iff: "rstrip c s = [] \<longleftrightarrow> s = replicate (length s) c"
  using all_same_iff [of s c] by (simp add: rstrip_def)

lemma split_nosep: "CHR ''/'' \<notin> set p \<Longrightarrow> split p = ([], p)"
  by (simp add: split_def cut_none)

lemma split_sep:
  "CHR ''/'' \<notin> set t \<Longrightarrow>
   split (h @ CHR ''/'' # t) =
     (if h @ ''/'' \<noteq> replicate (Suc (length h)) CHR ''/'' then rstrip CHR ''/'' h else h @ ''/'', t)"
  by (simp add: split_def cut_last rstrip_snoc [simplified])

lemma split_dir:
  assumes "CHR ''/'' \<notin> set t" "h \<noteq> []" "last h \<noteq> CHR ''/''"
  shows "split (h @ CHR ''/'' # t) = (h, t)"
proof -
  have "h @ ''/'' \<noteq> replicate (Suc (length h)) CHR ''/''"
  proof
    assume "h @ ''/'' = replicate (Suc (length h)) CHR ''/''"
    then have "\<forall>x \<in> set (h @ ''/''). x = CHR ''/''"
      using all_same_iff [of "h @ ''/''" "CHR ''/''"] by simp
    with assms(2,3) show False by simp
  qed
  then show ?thesis
    using assms by (simp add: split_sep rstrip_id)
qed

lemma split_root: "CHR ''/'' \<notin> set t \<Longrightarrow> split (CHR ''/'' # t) = (''/'', t)"
  using split_sep [of t "[]"] by simp

lemma basename_sep: "CHR ''/'' \<notin> set t \<Longrightarrow> basename (h @ CHR ''/'' # t) = t"
  by (simp add: basename_def cut_last)

lemma dirname_nonempty_iff: "dirname p \<noteq> [] \<longleftrightarrow> CHR ''/'' \<in> set p"
proof (cases "CHR ''/'' \<in> set p")
  case False
  then show ?thesis by (simp add: dirname_def split_nosep)
next
  case True
  then obtain h t where p: "p = h @ CHR ''/'' # t" and t: "CHR ''/'' \<notin> set t"
    by (meson split_list_last)
  have "fst (split p) \<noteq> []"
    using rstrip_empty_iff [of "CHR ''/''" "h @ ''/''"]
    by (simp add: p split_sep [OF t] rstrip_snoc [simplified])
  with True show ?thesis by (simp add: dirname_def)
qed


lemma splitext_append: "fst (splitext p) @ snd (splitext p) = p"
  by (simp add: splitext_def Let_def)

lemma splitext_ext:
  assumes "CHR ''.'' \<notin> set x" "CHR ''/'' \<notin> set x"
  shows "splitext (b @ CHR ''.'' # x) =
     (if \<exists>c \<in> set (drop (nat (rfind CHR ''/'' b + 1)) b). c \<noteq> CHR ''.''
      then (b, CHR ''.'' # x) else (b @ CHR ''.'' # x, []))"
proof -
  have dot: "rfind CHR ''.'' (b @ CHR ''.'' # x) = int (length b)"
    using assms(1) by (rule rfind_last)
  have sep: "rfind CHR ''/'' (b @ CHR ''.'' # x) = rfind CHR ''/'' b"
    using assms(2) rfind_append_notin [of "CHR ''/''" "CHR ''.'' # x" b] by simp
  have "rfind CHR ''/'' b < int (length b)"
    by (rule rfind_less)
  then show ?thesis
    by (simp add: splitext_def dot sep)
qed

lemma splitext_ext_parts:
  assumes "splitext p = (b, x)" "x \<noteq> []"
  shows "p = b @ x" "b \<noteq> []" "hd x = CHR ''.''"
    "\<exists>c \<in> set (drop (nat (rfind CHR ''/'' b + 1)) b). c \<noteq> CHR ''.''"
proof -
  let ?s = "rfind CHR ''/'' p" and ?d = "rfind CHR ''.'' p"
  from assms have cond: "?d > ?s"
      "\<exists>c \<in> set (drop (nat (?s + 1)) (take (nat ?d) p)). c \<noteq> CHR ''.''"
    and b: "b = take (nat ?d) p" and x: "x = drop (nat ?d) p"
    by (auto simp: splitext_def Let_def split: if_splits)
  show "p = b @ x" by (simp add: b x)
  from cond(2) show "b \<noteq> []" by (auto simp: b)
  have dot_in: "CHR ''.'' \<in> set p"
    using cond(1) rfind_ge [of "CHR ''/''" p] by (auto simp: rfind_def split: if_splits)
  then obtain h t where p: "p = h @ CHR ''.'' # t" and t: "CHR ''.'' \<notin> set t"
    by (meson split_list_last)
  have d: "?d = int (length h)"
    unfolding p using t by (rule rfind_last)
  show "hd x = CHR ''.''"
    by (simp add: x d) (simp add: p)
  have bh: "b = h" by (simp add: b d) (simp add: p)
  have "?s = rfind CHR ''/'' b"
  proof (cases "CHR ''/'' \<in> set t")
    case False
    then show ?thesis
      using rfind_append_notin [of "CHR ''/''" "CHR ''.'' # t" h] by (simp add: p bh)
  next
    case True
    then obtain u v where "t = u @ CHR ''/'' # v" "CHR ''/'' \<notin> set v"
      by (meson split_list_last)
    then have "?s = int (length (h @ CHR ''.'' # u))"
      using rfind_last [of "CHR ''/''" v "h @ CHR ''.'' # u"] by (simp add: p)
    with cond(1) d show ?thesis by simp
  qed
  with cond(2) show "\<exists>c \<in> set (drop (nat (rfind CHR ''/'' b + 1)) b). c \<noteq> CHR ''.''"
    by (simp add: b)
qed

lemma src_splitext:
  assumes "splitext f = (base, ext)" "ext \<in> set [''.pyc'', ''.pyo'', ''.py'']"
  shows "splitext (base @ ''.py'') = (base, ''.py'')"
proof -
  from assms(2) have "ext \<noteq> []" by auto
  from splitext_ext_parts(4) [OF assms(1) this]
  show ?thesis by (simp add: splitext_ext)
qed

lemma src_src_Some: "src (src (Some f)) = src (Some f)"
proof (cases "splitext f")
  case (Pair base ext)
  show ?thesis
  proof (cases "ext \<in> set [''.pyc'', ''.pyo'', ''.py'']")
    case True
    from src_splitext [OF Pair True] have "splitext (base @ ''.py'') = (base, ''.py'')" .
    with Pair True show ?thesis by (simp add: src_def)
  next
    case False
    with Pair show ?thesis by (simp add: src_def)
  qed
qed

text \<open>
  Claim C10. \<^verbatim>\<open>src\<close> is idempotent: for every filename \<open>f\<close>, \<^verbatim>\<open>None\<close> included,
  \<^verbatim>\<open>src(src(f))\<close> equals \<^verbatim>\<open>src(f)\<close>. A name that \<^verbatim>\<open>src\<close> rewrites ends in \<^verbatim>\<open>.py\<close> after a stem
  that \<^verbatim>\<open>splitext\<close> splits off again, and any other name is returned as it is.
\<close>

theorem src_idempotent: "src (src f) = src f"
proof (cases f)
  case None
  then show ?thesis by (simp add: src_def)
next
  case (Some a)
  then show ?thesis by (simp add: src_src_Some)
qed

section \<open>Addresses\<close>

lemma str_split_nonempty: "str_split c s \<noteq> []"
  by (simp add: str_split_def split: prod.splits)

lemma length_pieces: "length (snd (pieces c s)) = length (filter (\<lambda>x. x = c) s)"
  by (induction s) (auto split: prod.splits)

lemma length_str_split: "length (str_split c s) = Suc (length (filter (\<lambda>x. x = c) s))"
  using length_pieces [of c s] by (cases "pieces c s") (simp add: str_split_def)

lemma str_split_colon: "c \<in> set s \<Longrightarrow> 2 \<le> length (str_split c s)"
proof -
  assume "c \<in> set s"
  then have "filter (\<lambda>x. x = c) s \<noteq> []"
    by (simp add: filter_empty_conv)
  then show ?thesis
    by (cases "filter (\<lambda>x. x = c) s") (simp_all add: length_str_split)
qed

lemma normpath_nonempty: "normpath p \<noteq> []"
  by (simp add: normpath_def Let_def)

lemma splitext_Nil: "splitext [] = ([], [])"
  by (simp add: splitext_def rfind_def)

lemma file_like_Nil: "file_like e []"
  by (simp add: file_like_def splitext_Nil ident_re_match_def)

lemma classify_location:
  "fm \<noteq> [] \<Longrightarrow> classify e fm fn = (f, m, c) \<Longrightarrow> \<not> blank f \<or> \<not> blank m"
  by (auto simp: classify_def blank_def normpath_nonempty split: if_splits)

lemma classify_callable:
  "fn \<noteq> [] \<Longrightarrow> classify e fm (Some fn) = (f, m, c) \<Longrightarrow> \<not> blank c"
  by (auto simp: classify_def blank_def split: if_splits)

lemma split_test_name_not_blank:
  assumes "split_test_name e test = Inr (f, m, c)"
  shows "\<not> blank f \<or> \<not> blank m \<or> \<not> blank c"
proof (cases "CHR '':'' \<in> set test")
  case False
  with assms file_like_Nil [of e] show ?thesis
    by (auto simp: split_test_name_def blank_def normpath_nonempty split: if_splits)
next
  case colon: True
  then have test: "test \<noteq> []" by auto
  obtain head tail where ht: "split test = (head, tail)" by (cases "split test")
  show ?thesis
  proof (cases "head = []")
    case True
    from colon have len: "2 \<le> length (str_split CHR '':'' test)" by (rule str_split_colon)
    then obtain a b rest where parts: "str_split CHR '':'' test = a # b # rest"
      by (cases "str_split CHR '':'' test"; cases "tl (str_split CHR '':'' test)") auto
    show ?thesis
    proof (cases rest)
      case Nil
      show ?thesis
      proof (cases "file_like e b")
        case True
        with assms colon ht \<open>head = []\<close> parts Nil
        have "classify e test None = (f, m, c)"
          by (simp add: split_test_name_def)
        from classify_location [OF test this] show ?thesis by blast
      next
        case False
        with file_like_Nil [of e] have "b \<noteq> []" by auto
        from assms colon ht \<open>head = []\<close> parts Nil False
        have "classify e a (Some b) = (f, m, c)"
          by (simp add: split_test_name_def)
        from classify_callable [OF \<open>b \<noteq> []\<close> this] show ?thesis by blast
      qed
    next
      case (Cons r rs)
      with assms colon ht \<open>head = []\<close> parts
      have "classify e (str_join '':'' (butlast (a # b # r # rs))) (Some (last (a # b # r # rs)))
              = (f, m, c)"
        by (simp add: split_test_name_def split: if_splits)
      moreover have "str_join '':'' (butlast (a # b # r # rs)) \<noteq> []"
        by simp
      ultimately show ?thesis using classify_location by blast
    qed
  next
    case False
    have "classify e test None = (f, m, c) \<or>
          (\<exists>x fn. classify e (str_join ''/'' [head, x]) fn = (f, m, c))"
      using assms colon ht False
      by (auto simp: split_test_name_def split: if_splits list.splits)
    moreover have "\<And>x. str_join ''/'' [head, x] \<noteq> []" by simp
    ultimately show ?thesis using classify_location test by blast
  qed
qed


lemma test_address_all_none_iff:
  "(test_address e x = Inr (None, None, None)) = anonymous x"
  "(dispatch e t = Inr (None, None, None)) = anonymous_shape t"
  by (induction x and t)
    (auto split: option.splits sum.splits error.splits prod.splits)

text \<open>
  Claim C8, as amended. Every triple that \<^verbatim>\<open>split_test_name\<close> returns has a field that is
  neither \<^verbatim>\<open>None\<close> nor empty. \<^verbatim>\<open>test_address\<close> returns the all-\<^verbatim>\<open>None\<close> triple exactly for
  the anonymous entities; for every other entity a returned triple has a field that is not
  \<^verbatim>\<open>None\<close>.
\<close>

theorem address_not_blank:
  "(split_test_name e test = Inr (f, m, c) \<longrightarrow> \<not> blank f \<or> \<not> blank m \<or> \<not> blank c) \<and>
   (test_address e x = Inr (None, None, None) \<longleftrightarrow> anonymous x)"
  using split_test_name_not_blank [of e test f m c] test_address_all_none_iff(1) [of e x]
  by blast

text \<open>
  Claim C8 as stated fails: for a module object with neither \<^verbatim>\<open>__file__\<close> nor
  \<^verbatim>\<open>__name__\<close> (both are read with a default of \<^verbatim>\<open>None\<close>) \<^verbatim>\<open>test_address\<close> returns
  \<^verbatim>\<open>(None, None, None)\<close>.
\<close>

theorem attributeless_module_counterexample:
  "test_address env_work (Entity None (ModuleType None None)) = Inr (None, None, None)"
  by simp

theorem address_not_blank_witness:
  "split_test_name env_work ''foo:bar'' = Inr (None, Some ''foo'', Some ''bar'') \<and>
   \<not> blank (Some ''foo'') \<and>
   \<not> anonymous (Entity None (ModuleType None (Some ''foo''))) \<and>
   test_address env_work (Entity None (ModuleType None (Some ''foo''))) \<noteq> Inr (None, None, None)"
proof -
  have r: "split_test_name env_work ''foo:bar'' = Inr (None, Some ''foo'', Some ''bar'')"
    by (simp add: split_test_name_def split_def rfind_def classify_def file_like_def
        dirname_def splitext_def endswith_def ident_re_match_def ident_start_def ident_char_def
        str_split_def env_work_def mk_env_def)
  from address_not_blank
    [of env_work "''foo:bar''" None "Some ''foo''" "Some ''bar''"
      "Entity None (ModuleType None (Some ''foo''))"]
  show ?thesis using r by (simp add: blank_def)
qed

text \<open>
  Claim C9, as amended. For a function or class whose \<^verbatim>\<open>address\<close> call raises
  \<^verbatim>\<open>AttributeError\<close> (it has no such attribute), so that the dispatch on its type is
  reached, and whose \<^verbatim>\<open>__module__\<close> is not \<^verbatim>\<open>None\<close> and not a key of \<^verbatim>\<open>sys.modules\<close>,
  \<^verbatim>\<open>test_address\<close> fails with the \<^verbatim>\<open>KeyError\<close> of the registry lookup, not with the
  \<^verbatim>\<open>TypeError\<close> of the last line.
\<close>

theorem unregistered_module_KeyError:
  assumes "sys_modules e mname = None"
    and "am = None \<or> (\<exists>msg. am = Some (Inl (AttributeError msg)))"
  shows "test_address e (Entity am (FunctionOrClass (Some mname) call)) = Inl (KeyError mname)"
  using assms by auto

theorem unregistered_module_KeyError_witness:
  "sys_modules env_work ''gone'' = None \<and>
   test_address env_work (Entity None (FunctionOrClass (Some ''gone'') (Some ''f'')))
     = Inl (KeyError ''gone'')"
proof -
  have h: "sys_modules env_work ''gone'' = None"
    by (simp add: env_work_def mk_env_def)
  from unregistered_module_KeyError [OF h, of None "Some ''f''"] h show ?thesis by simp
qed

text \<open>
  Claim C9 as stated, for every function or class, fails: \<^verbatim>\<open>test.address()\<close> is tried
  before the type is looked at. A function that has been given an \<^verbatim>\<open>address\<close> attribute
  gets what that returns, and a class that defines an \<^verbatim>\<open>address\<close> method gets the
  \<^verbatim>\<open>TypeError\<close> of the unbound call; in neither case is the registry read, though
  \<^verbatim>\<open>__module__\<close> is not a key of it.
\<close>

theorem address_attribute_counterexample:
  "sys_modules env_work ''gone'' = None \<and>
   test_address env_work
     (Entity (Some (Inr (Some ''/x.py'', Some ''x'', Some ''f'')))
        (FunctionOrClass (Some ''gone'') (Some ''f'')))
     = Inr (Some ''/x.py'', Some ''x'', Some ''f'') \<and>
   test_address env_work
     (Entity (Some (Inl (TypeError ''unbound method address() must be called with C instance'')))
        (FunctionOrClass (Some ''gone'') (Some ''C'')))
     = Inl (TypeError ''unbound method address() must be called with C instance'')"
  by (simp add: env_work_def mk_env_def)

text \<open>
  Claim C3 says that the file of a module's address is its \<^verbatim>\<open>__file__\<close> made absolute.
  The module branch returns \<^verbatim>\<open>__file__\<close> as it is, while the function-or-class branch
  passes the same attribute of the same module through \<^verbatim>\<open>os.path.abspath\<close>: for the module
  \<^verbatim>\<open>foo.bar\<close> loaded from the relative path \<^verbatim>\<open>foo/bar.py\<close> the two branches give
  different files. The module and callable components are as the claim says
  (\<open>test_address_module\<close> below).
\<close>

theorem module_file_not_absolute:
  "test_address env_work (Entity None (ModuleType (Some ''foo/bar.py'') (Some ''foo.bar'')))
     = Inr (Some ''foo/bar.py'', Some ''foo.bar'', None) \<and>
   \<not> isabs ''foo/bar.py'' \<and>
   test_address env_work (Entity None (FunctionOrClass (Some ''foo.bar'') (Some ''f'')))
     = Inr (Some ''/work/foo/bar.py'', Some ''foo.bar'', Some ''f'')"
  by (simp add: isabs_def startswith_def abspath_def join_def endswith_def normpath_def
      str_split_def env_work_def mk_env_def)

lemma test_address_module:
  "am = None \<or> (\<exists>msg. am = Some (Inl (AttributeError msg))) \<Longrightarrow>
   test_address e (Entity am (ModuleType file module)) = Inr (file, module, None)"
  by auto

text \<open>
  Claim C1 says that a specifier such as \<^verbatim>\<open>foo:bar:baz\<close> fails with an error whose message
  names the offending specifier. The error is raised (\<open>split_test_name_malformed\<close> below,
  for every such specifier), but its message is the format string itself: the placeholder
  \<^verbatim>\<open>%s\<close> is still in it and the specifier is not.
\<close>

theorem malformed_message_not_interpolated:
  "split_test_name e ''foo:bar:baz'' = Inl (ValueError parse_error_message) \<and>
   \<not> contains parse_error_message ''foo:bar:baz'' \<and>
   contains parse_error_message ''%s''"
  by (simp add: split_test_name_def split_def rfind_def parse_error_message_def startswith_def
      str_split_def)

lemma split_test_name_malformed:
  assumes "fst (split test) = []" "2 \<le> length (filter (\<lambda>x. x = CHR '':'') test)"
    "1 < length (hd (str_split CHR '':'' test))"
  shows "split_test_name e test = Inl (ValueError parse_error_message)"
proof -
  from assms(2) have "3 \<le> length (str_split CHR '':'' test)"
    by (simp add: length_str_split)
  then obtain a b c rest where parts: "str_split CHR '':'' test = a # b # c # rest"
    by (cases "str_split CHR '':'' test"; cases "tl (str_split CHR '':'' test)";
        cases "tl (tl (str_split CHR '':'' test))") auto
  from assms(2) have "filter (\<lambda>x. x = CHR '':'') test \<noteq> []"
    by auto
  then have "CHR '':'' \<in> set test"
    by (auto simp: filter_empty_conv)
  with assms(1,3) parts show ?thesis
    by (cases "split test") (simp add: split_test_name_def)
qed

text \<open>
  Claim C2, as amended. In every environment, \<^verbatim>\<open>split_test_name("foo/bar.py:test_func")\<close>
  returns the file \<^verbatim>\<open>foo/bar.py\<close>, normalised by \<^verbatim>\<open>os.path.normpath\<close> and still relative,
  no module, and the callable \<^verbatim>\<open>test_func\<close>.
\<close>

theorem parse_relative_path:
  "split_test_name e ''foo/bar.py:test_func'' = Inr (Some ''foo/bar.py'', None, Some ''test_func'')"
  by (simp add: split_test_name_def split_def rfind_def rstrip_def classify_def file_like_def
      dirname_def normpath_def startswith_def str_split_def)

text \<open>
  Claim C2 as stated fails: with the working directory \<^verbatim>\<open>/work\<close> the absolute path of
  \<^verbatim>\<open>foo/bar.py\<close> is \<^verbatim>\<open>/work/foo/bar.py\<close>, and the file returned is \<^verbatim>\<open>foo/bar.py\<close>.
\<close>

theorem parse_relative_path_counterexample:
  "split_test_name env_work ''foo/bar.py:test_func''
     = Inr (Some ''foo/bar.py'', None, Some ''test_func'') \<and>
   abspath env_work ''foo/bar.py'' = ''/work/foo/bar.py'' \<and>
   \<not> isabs ''foo/bar.py''"
  by (simp add: split_test_name_def split_def rfind_def rstrip_def classify_def file_like_def
      dirname_def normpath_def startswith_def str_split_def isabs_def abspath_def join_def endswith_def
      env_work_def mk_env_def)

section \<open>\<^verbatim>\<open>file_like\<close> and the identifier pattern\<close>

lemma ident_re_match_stem:
  assumes "ident_re_match name"
  shows "ident_re_match (fst (splitext name))"
proof (cases "splitext name")
  case (Pair b x)
  show ?thesis
  proof (cases "x = []")
    case True
    with Pair splitext_append [of name] assms show ?thesis by simp
  next
    case False
    from splitext_ext_parts(1,2) [OF Pair False]
    obtain c r where name: "name = (c # r) @ x" and b: "b = c # r"
      by (cases b) auto
    from False have bl: "butlast (r @ x) = r @ butlast x"
      by (simp add: butlast_append)
    from assms have "ident_start c \<and> list_all ident_char r"
      by (auto simp: ident_re_match_def name bl)
    then show ?thesis by (simp add: Pair b ident_re_match_def)
  qed
qed

text \<open>
  What \<^verbatim>\<open>file_like\<close> computes: the identifier pattern is tried on the name without its
  extension, \<^verbatim>\<open>os.path.splitext(name)[0]\<close>. A name that matches the pattern has a stem that
  matches it, so a name that is file-like is one that exists, has a directory part, ends in
  \<^verbatim>\<open>.py\<close> or does not match the pattern; the converse fails.
\<close>

lemma file_like_iff:
  "(file_like e name \<longleftrightarrow>
      path_exists e name \<or> CHR ''/'' \<in> set name \<or> endswith name ''.py'' \<or>
      \<not> ident_re_match (fst (splitext name))) \<and>
   (file_like e name \<longrightarrow>
      path_exists e name \<or> CHR ''/'' \<in> set name \<or> endswith name ''.py'' \<or>
      \<not> ident_re_match name)"
  using ident_re_match_stem [of name]
  by (auto simp: file_like_def dirname_nonempty_iff)

text \<open>
  Claim C7 says that \<^verbatim>\<open>file_like(name)\<close> is true if and only if \<open>name\<close> exists on disk, or
  contains a directory separator, or ends with \<^verbatim>\<open>.py\<close>, or the whole name fails to match
  the identifier pattern; so does the docstring ("or it isn't a legal python identifier").
  The code tries the pattern on \<^verbatim>\<open>os.path.splitext(name)[0]\<close> instead: for \<^verbatim>\<open>foo.b-r\<close>, which
  is not on disk, has no directory part, does not end in \<^verbatim>\<open>.py\<close> and does not match the
  pattern, \<^verbatim>\<open>file_like\<close> is false, because the stem \<^verbatim>\<open>foo\<close> matches.
\<close>

theorem file_like_tests_stem:
  assumes "\<not> path_exists e ''foo.b-r''"
  shows "\<not> file_like e ''foo.b-r'' \<and> \<not> ident_re_match ''foo.b-r'' \<and>
    ident_re_match (fst (splitext ''foo.b-r''))"
  using assms
  by (simp add: file_like_def dirname_def split_def rfind_def splitext_def endswith_def
      ident_re_match_def ident_start_def ident_char_def)

theorem file_like_tests_stem_witness:
  "\<not> path_exists env_work ''foo.b-r'' \<and> \<not> file_like env_work ''foo.b-r'' \<and>
   \<not> ident_re_match ''foo.b-r''"
proof -
  have h: "\<not> path_exists env_work ''foo.b-r''"
    by (simp add: env_work_def mk_env_def)
  from file_like_tests_stem [OF h] h show ?thesis by simp
qed

section \<open>\<^verbatim>\<open>getpackage\<close> against the specification\<close>

lemma walk_up_chain:
  "walk_up e (fst (split d)) (snd (split d)) acc = acc @ rev (package_chain e d)"
proof (induction e d arbitrary: acc rule: package_chain.induct)
  case (1 e dir)
  show ?case
  proof (cases "snd (split dir) \<noteq> [] \<and> ispackage e (join (fst (split dir)) (snd (split dir)))")
    case True
    with "1.IH" [of "acc @ [snd (split dir)]"] show ?thesis
      by (subst walk_up.simps, subst package_chain.simps) simp
  next
    case False
    then show ?thesis
      by (subst walk_up.simps, subst package_chain.simps) auto
  qed
qed

lemma getpackage_chain: "getpackage e (Some filename) = Inr (module_name_from_path e filename)"
proof (cases "src (Some filename)")
  case None
  then show ?thesis by (simp add: src_def split: prod.splits if_splits)
next
  case (Some src_file)
  have "rev (walk_up e (fst (split (fst (split src_file)))) (snd (split (fst (split src_file)))) mp)
          = package_chain e (fst (split src_file)) @ rev mp" for mp
    by (simp add: walk_up_chain)
  then show ?thesis
    by (simp add: getpackage_def module_name_from_path_def Some Let_def case_prod_beta)
qed

lemma pkg_subpkg_example:
  assumes "ispackage e ''pkg''" "ispackage e ''pkg/subpkg''"
  shows "module_name_from_path e ''pkg/subpkg/__init__.py'' = Some ''pkg.subpkg''"
proof -
  have s1: "split ''pkg/subpkg/__init__.py'' = (''pkg/subpkg'', ''__init__.py'')"
    by (simp add: split_def rfind_def rstrip_def)
  have s2: "split ''pkg/subpkg'' = (''pkg'', ''subpkg'')"
    by (simp add: split_def rfind_def rstrip_def)
  have s3: "split ''pkg'' = ([], ''pkg'')"
    by (simp add: split_def rfind_def)
  have s4: "split [] = ([], [])"
    by (simp add: split_def rfind_def)
  have j: "join ''pkg'' ''subpkg'' = ''pkg/subpkg''" "join [] ''pkg'' = ''pkg''"
    by (simp_all add: join_def startswith_def endswith_def)
  have c0: "package_chain e [] = []"
    by (subst package_chain.simps) (simp add: s4)
  have c1: "package_chain e ''pkg'' = [''pkg'']"
    using assms(1) by (subst package_chain.simps) (simp add: s3 j c0)
  have c2: "package_chain e ''pkg/subpkg'' = [''pkg'', ''subpkg'']"
    using assms(2) by (subst package_chain.simps) (simp add: s2 j c1)
  have x: "splitext ''pkg/subpkg/__init__.py'' = (''pkg/subpkg/__init__'', ''.py'')"
    by (simp add: splitext_def rfind_def)
  have b: "splitext (basename ''pkg/subpkg/__init__.py'') = (''__init__'', ''.py'')"
    by (simp add: basename_def splitext_def rfind_def)
  show ?thesis
    by (simp add: module_name_from_path_def src_def x b s1 c2 endswith_def)
qed

text \<open>
  Claim C5. \<^verbatim>\<open>getpackage\<close> computes the dotted name as the specification describes it:
  the file's stem is the leaf (nothing for \<^verbatim>\<open>__init__\<close>), and from the parent directory
  upwards each directory's name is put in front while the directory is a package directory,
  the walk stopping without adding anything at the first that is not. In particular
  \<^verbatim>\<open>pkg/subpkg/__init__.py\<close> gives \<^verbatim>\<open>pkg.subpkg\<close> when \<^verbatim>\<open>pkg\<close> and \<^verbatim>\<open>pkg/subpkg\<close> are
  package directories.
\<close>

theorem getpackage_walks_up:
  "getpackage e (Some filename) = Inr (module_name_from_path e filename) \<and>
   (ispackage e ''pkg'' \<and> ispackage e ''pkg/subpkg'' \<longrightarrow>
      getpackage e (Some ''pkg/subpkg/__init__.py'') = Inr (Some ''pkg.subpkg''))"
  using getpackage_chain pkg_subpkg_example by simp

theorem getpackage_walks_up_witness:
  "ispackage env_pkg ''pkg'' \<and> ispackage env_pkg ''pkg/subpkg'' \<and>
   getpackage env_pkg (Some ''pkg/subpkg/__init__.py'') = Inr (Some ''pkg.subpkg'')"
proof -
  have s: "split ''pkg/subpkg'' = (''pkg'', ''subpkg'')"
      "split ''pkg/__init__.py'' = (''pkg'', ''__init__.py'')"
      "split ''pkg/subpkg/__init__.py'' = (''pkg/subpkg'', ''__init__.py'')"
      "split ''pkg'' = ([], ''pkg'')"
    by (simp_all add: split_def rfind_def rstrip_def)
  have b: "basename ''pkg/subpkg'' = ''subpkg''" "basename ''pkg/__init__.py'' = ''__init__.py''"
      "basename ''pkg/subpkg/__init__.py'' = ''__init__.py''" "basename ''pkg'' = ''pkg''"
    by (simp_all add: basename_def rfind_def)
  have x: "src (Some ''__init__.py'') = Some ''__init__.py''" "src (Some ''subpkg'') = Some ''subpkg''"
    by (simp_all add: src_def splitext_def rfind_def)
  have j: "join ''pkg'' ''__init__.py'' = ''pkg/__init__.py''"
      "join ''pkg'' ''subpkg'' = ''pkg/subpkg''"
      "join ''pkg/subpkg'' ''__init__.py'' = ''pkg/subpkg/__init__.py''"
    by (simp_all add: join_def startswith_def endswith_def)
  have h1: "ispackage env_pkg ''pkg''"
    by (simp add: ispackage_def env_pkg_def mk_env_def s b x j)
  have h2: "ispackage env_pkg ''pkg/subpkg''"
    by (simp add: ispackage_def env_pkg_def mk_env_def s b x j)
  from getpackage_walks_up [of env_pkg]
  have "ispackage env_pkg ''pkg'' \<and> ispackage env_pkg ''pkg/subpkg'' \<longrightarrow>
      getpackage env_pkg (Some ''pkg/subpkg/__init__.py'') = Inr (Some ''pkg.subpkg'')"
    by (rule conjunct2)
  with h1 h2 show ?thesis by blast
qed

section \<open>\<^verbatim>\<open>resolve_name\<close>: the import loop and the attribute walk\<close>

lemma import_loop_longest:
  assumes "1 \<le> k" "k \<le> length parts" "imp (str_join ''.'' (take k parts)) = Inr m"
    "\<forall>j. k < j \<and> j \<le> length parts \<longrightarrow>
       (\<exists>msg. imp (str_join ''.'' (take j parts)) = Inl (ImportError msg))"
  shows "import_loop imp parts = Inr (Some m)"
  using assms
proof (induction "length parts - k" arbitrary: parts)
  case 0
  then have "take k parts = parts" "parts \<noteq> []" by auto
  with "0.prems"(3) show ?case
    by (subst import_loop.simps) simp
next
  case (Suc n)
  then have len: "k < length parts" by simp
  with Suc.prems(1) have ne: "parts \<noteq> []" "butlast parts \<noteq> []"
    by (auto simp: butlast_conv_take)
  from Suc.prems(4) len obtain msg where
    fail: "imp (str_join ''.'' parts) = Inl (ImportError msg)"
    by (metis order_refl take_all)
  have "import_loop imp (butlast parts) = Inr (Some m)"
  proof (rule Suc.hyps(1))
    show "n = length (butlast parts) - k" using Suc.hyps(2) by simp
    show "1 \<le> k" by (rule Suc.prems(1))
    show "k \<le> length (butlast parts)" using len by simp
    show "imp (str_join ''.'' (take k (butlast parts))) = Inr m"
      using Suc.prems(3) len by (simp add: take_butlast)
    show "\<forall>j. k < j \<and> j \<le> length (butlast parts) \<longrightarrow>
       (\<exists>msg. imp (str_join ''.'' (take j (butlast parts))) = Inl (ImportError msg))"
    proof (intro allI impI)
      fix j
      assume j: "k < j \<and> j \<le> length (butlast parts)"
      then have "j < length parts" using len by (simp del: One_nat_def) arith
      then have "take j (butlast parts) = take j parts" by (simp add: take_butlast)
      with Suc.prems(4) j \<open>j < length parts\<close>
      show "\<exists>msg. imp (str_join ''.'' (take j (butlast parts))) = Inl (ImportError msg)"
        by simp
    qed
  qed
  with ne fail show ?case
    by (subst import_loop.simps) simp
qed

lemma attr_walk_error:
  "attr_walk getattr obj ps = Inl err \<Longrightarrow>
   \<exists>i<length ps. \<exists>obj'. attr_walk getattr obj (take i ps) = Inr obj' \<and>
      getattr obj' (ps ! i) = Inl err"
proof (induction ps arbitrary: obj)
  case Nil
  then show ?case by simp
next
  case (Cons p ps)
  show ?case
  proof (cases "getattr obj p")
    case (Inl e)
    with Cons.prems have "attr_walk getattr obj (take 0 (p # ps)) = Inr obj \<and>
        getattr obj ((p # ps) ! 0) = Inl err"
      by simp
    then show ?thesis by blast
  next
    case (Inr obj1)
    with Cons.prems have "attr_walk getattr obj1 ps = Inl err" by simp
    from Cons.IH [OF this] obtain i obj' where
      i: "i < length ps" "attr_walk getattr obj1 (take i ps) = Inr obj'"
        "getattr obj' (ps ! i) = Inl err"
      by blast
    with Inr have "Suc i < length (p # ps) \<and>
        attr_walk getattr obj (take (Suc i) (p # ps)) = Inr obj' \<and>
        getattr obj' ((p # ps) ! Suc i) = Inl err"
      by simp
    then show ?thesis by blast
  qed
qed

text \<open>
  Claim C6, as amended. When the first \<open>k\<close> components of the dotted name are its longest
  importable prefix (every longer prefix raises \<^verbatim>\<open>ImportError\<close>), \<^verbatim>\<open>resolve_name\<close> takes
  what \<^verbatim>\<open>__import__\<close> returned for that prefix and looks up every component after the
  first on it in turn; for \<^verbatim>\<open>pkg.mod.Class.method\<close> with \<^verbatim>\<open>pkg.mod\<close> importable these are
  \<^verbatim>\<open>mod\<close>, \<^verbatim>\<open>Class\<close> and \<^verbatim>\<open>method\<close>, looked up from the top-level package that
  \<^verbatim>\<open>__import__\<close> returns. When it fails then, the error is the one that \<^verbatim>\<open>getattr\<close> raised
  for the object reached and the failing segment: nothing else goes into it.
\<close>

theorem resolve_name_longest_prefix:
  assumes "parts = str_split CHR ''.'' name"
    and "1 \<le> k" "k \<le> length parts"
    and "imp (str_join ''.'' (take k parts)) = Inr m"
    and "\<forall>j. k < j \<and> j \<le> length parts \<longrightarrow>
       (\<exists>msg. imp (str_join ''.'' (take j parts)) = Inl (ImportError msg))"
  shows "resolve_name imp getattr name None = map_sum id Some (attr_walk getattr m (tl parts)) \<and>
    (\<forall>err. resolve_name imp getattr name None = Inl err \<longrightarrow>
       (\<exists>i<length (tl parts). \<exists>obj.
          attr_walk getattr m (take i (tl parts)) = Inr obj \<and>
          getattr obj (tl parts ! i) = Inl err))"
proof -
  have "import_loop imp parts = Inr (Some m)"
    using assms(2-5) by (rule import_loop_longest)
  then have r: "resolve_name imp getattr name None
      = map_sum id Some (attr_walk getattr m (tl parts))"
    by (simp add: resolve_name_def assms(1) [symmetric])
  have "attr_walk getattr m (tl parts) = Inl err" if "resolve_name imp getattr name None = Inl err"
    for err
    using that unfolding r by (cases "attr_walk getattr m (tl parts)") simp_all
  with r attr_walk_error [of getattr m "tl parts"] show ?thesis by blast
qed

lemma parts_example: "str_split CHR ''.'' ''pkg.mod.Class.method'' = [''pkg'', ''mod'', ''Class'', ''method'']"
  by (simp add: str_split_def)

theorem resolve_name_longest_prefix_witness:
  "py_import (pkg_of (PyObj class_type [(''method'', the_method)])) ''pkg.mod'' =
     Inr (pkg_of (PyObj class_type [(''method'', the_method)])) \<and>
   resolve_name (py_import (pkg_of (PyObj class_type [(''method'', the_method)]))) py_getattr
     ''pkg.mod.Class.method'' None = Inr (Some the_method)"
proof -
  let ?pkg = "pkg_of (PyObj class_type [(''method'', the_method)])"
  let ?parts = "[''pkg'', ''mod'', ''Class'', ''method'']"
  have ok: "py_import ?pkg (str_join ''.'' (take 2 ?parts)) = Inr ?pkg"
    by (simp add: py_import_def numeral_2_eq_2)
  have fails: "\<forall>j. 2 < j \<and> j \<le> length ?parts \<longrightarrow>
       (\<exists>msg. py_import ?pkg (str_join ''.'' (take j ?parts)) = Inl (ImportError msg))"
  proof (intro allI impI)
    fix j :: nat
    assume "2 < j \<and> j \<le> length ?parts"
    then have "j = 3 \<or> j = 4" by auto
    then show "\<exists>msg. py_import ?pkg (str_join ''.'' (take j ?parts)) = Inl (ImportError msg)"
      by (auto simp: py_import_def numeral_3_eq_3 eval_nat_numeral)
  qed
  have walk: "attr_walk py_getattr ?pkg (tl ?parts) = Inr the_method"
    by (simp add: py_getattr_def pkg_of_def)
  from resolve_name_longest_prefix [OF parts_example [symmetric] _ _ ok fails, of py_getattr]
  have "resolve_name (py_import ?pkg) py_getattr ''pkg.mod.Class.method'' None
      = map_sum id Some (attr_walk py_getattr ?pkg (tl ?parts))"
    by simp
  with ok walk show ?thesis by (simp add: numeral_2_eq_2)
qed

text \<open>
  Claim C6 as stated fails where it says that the error names the full original string:
  when \<^verbatim>\<open>Class\<close> has no attribute \<^verbatim>\<open>method\<close>, the error is CPython's
  \<^verbatim>\<open>AttributeError\<close> for the class and the segment, in which \<^verbatim>\<open>pkg.mod.Class.method\<close>
  does not occur.
\<close>

theorem missing_attribute_counterexample:
  "resolve_name (py_import (pkg_of (PyObj class_type []))) py_getattr ''pkg.mod.Class.method'' None
     = Inl (AttributeError (no_attribute class_type ''method'')) \<and>
   \<not> contains (no_attribute class_type ''method'') ''pkg.mod.Class.method''"
proof -
  let ?imp = "py_import (pkg_of (PyObj class_type []))"
  have i4: "import_loop ?imp [''pkg'', ''mod''] = Inr (Some (pkg_of (PyObj class_type [])))"
    by (subst import_loop.simps) (simp add: py_import_def)
  have i3: "import_loop ?imp [''pkg'', ''mod'', ''Class''] = Inr (Some (pkg_of (PyObj class_type [])))"
    by (subst import_loop.simps) (simp add: py_import_def str_split_def i4)
  have i2: "import_loop ?imp [''pkg'', ''mod'', ''Class'', ''method'']
      = Inr (Some (pkg_of (PyObj class_type [])))"
    by (subst import_loop.simps) (simp add: py_import_def str_split_def i3)
  have "resolve_name ?imp py_getattr ''pkg.mod.Class.method'' None
     = Inl (AttributeError (no_attribute class_type ''method''))"
    by (simp add: resolve_name_def parts_example i2) (simp add: py_getattr_def pkg_of_def)
  moreover have "\<not> contains (no_attribute class_type ''method'') ''pkg.mod.Class.method''"
    by (simp add: no_attribute_def class_type_def startswith_def)
  ultimately show ?thesis by simp
qed

section \<open>The round trip between paths and module names\<close>

lemma dir_of_snoc: "dir_of R (ks @ [c]) = dir_of R ks @ CHR ''/'' # c"
  by (induction ks arbitrary: R) simp_all

lemma dirs_below_snoc: "dirs_below R (ks @ [c]) = dirs_below R ks @ [dir_of R (ks @ [c])]"
  by (induction ks arbitrary: R) simp_all

lemma dir_of_tidy:
  assumes "R \<noteq> []" "last R \<noteq> CHR ''/''" "list_all plain_name ks"
  shows "dir_of R ks \<noteq> [] \<and> last (dir_of R ks) \<noteq> CHR ''/''"
  using assms(3)
proof (induction ks rule: rev_induct)
  case Nil
  with assms(1,2) show ?case by simp
next
  case (snoc c ks)
  then have "plain_name c" by simp
  then have "c \<noteq> []" "CHR ''/'' \<notin> set c" by (simp_all add: plain_name_def)
  then have "last c \<noteq> CHR ''/''" using last_in_set by metis
  with \<open>c \<noteq> []\<close> show ?case by (simp add: dir_of_snoc)
qed

lemma startswith_sep: "startswith b ''/'' \<longleftrightarrow> b \<noteq> [] \<and> hd b = CHR ''/''"
  by (cases b) (simp_all add: startswith_def)

lemma endswith_sep: "endswith a ''/'' \<longleftrightarrow> a \<noteq> [] \<and> last a = CHR ''/''"
  by (cases a rule: rev_cases) (simp_all add: endswith_def)

lemma endswith_append: "endswith (a @ x) x"
  by (simp add: endswith_def)

lemma join_dir:
  "D \<noteq> [] \<Longrightarrow> last D \<noteq> CHR ''/'' \<Longrightarrow> x \<noteq> [] \<Longrightarrow> hd x \<noteq> CHR ''/'' \<Longrightarrow> join D x = D @ CHR ''/'' # x"
  by (simp add: join_def startswith_sep endswith_sep)

lemma contains_append: "contains (a @ x @ b) x"
proof (induction a)
  case Nil
  have s: "startswith (x @ b) x" by (simp add: startswith_def)
  show ?case
  proof (cases "x @ b")
    case Nil
    then show ?thesis by simp
  next
    case (Cons c r)
    with s show ?thesis by simp
  qed
next
  case (Cons c a)
  then show ?case by simp
qed

lemma rejoin_root:
  assumes "R \<noteq> []" "last R \<noteq> CHR ''/''" "\<not> contains R ''//''"
  shows "snd (split R) \<noteq> [] \<and> join (fst (split R)) (snd (split R)) = R"
proof (cases "CHR ''/'' \<in> set R")
  case False
  with assms(1) have "hd R \<noteq> CHR ''/''" using hd_in_set by metis
  with False assms(1) show ?thesis
    by (simp add: split_nosep join_def startswith_sep)
next
  case True
  then obtain h t where R: "R = h @ CHR ''/'' # t" and t: "CHR ''/'' \<notin> set t"
    by (meson split_list_last)
  from assms(2) R have tne: "t \<noteq> []" by auto
  with t have hdt: "hd t \<noteq> CHR ''/''" using hd_in_set by metis
  show ?thesis
  proof (cases "h = []")
    case True
    with R t tne hdt show ?thesis
      by (simp add: split_root join_def startswith_sep endswith_def)
  next
    case False
    have "last h \<noteq> CHR ''/''"
    proof
      assume "last h = CHR ''/''"
      with False have "h = butlast h @ ''/''" by (metis append_butlast_last_id)
      then have "R = butlast h @ ''//'' @ t" using R by (metis append.assoc append_Cons append_Nil)
      with contains_append [of "butlast h" "''//''" t] assms(3) show False by simp
    qed
    with False t tne hdt show ?thesis
      by (simp add: R split_dir join_dir)
  qed
qed

lemma chain_root:
  assumes "R \<noteq> []" "last R \<noteq> CHR ''/''" "\<not> contains R ''//''" "\<not> ispackage e R"
  shows "package_chain e R = []"
  using rejoin_root [OF assms(1-3)] assms(4)
  by (subst package_chain.simps) simp

lemma chain_dir:
  assumes "R \<noteq> []" "last R \<noteq> CHR ''/''" "\<not> contains R ''//''" "\<not> ispackage e R"
    and "list_all plain_name ks" "list_all (ispackage e) (dirs_below R ks)"
  shows "package_chain e (dir_of R ks) = ks"
  using assms(5,6)
proof (induction ks rule: rev_induct)
  case Nil
  show ?case using chain_root [OF assms(1-4)] by simp
next
  case (snoc c ks)
  let ?D = "dir_of R ks"
  from snoc.prems have ks: "list_all plain_name ks" "list_all (ispackage e) (dirs_below R ks)"
    and pc: "plain_name c"
    and pkg: "ispackage e (?D @ CHR ''/'' # c)"
    by (simp_all add: dirs_below_snoc dir_of_snoc)
  from pc have c: "c \<noteq> []" "CHR ''/'' \<notin> set c"
    by (simp_all add: plain_name_def)
  from dir_of_tidy [OF assms(1,2) ks(1)] have D: "?D \<noteq> []" "last ?D \<noteq> CHR ''/''" by simp_all
  from c have hdc: "hd c \<noteq> CHR ''/''" using hd_in_set by metis
  have sp: "split (?D @ CHR ''/'' # c) = (?D, c)"
    using c(2) D by (rule split_dir)
  have "package_chain e (?D @ CHR ''/'' # c) = package_chain e ?D @ [c]"
    using c(1) pkg by (subst package_chain.simps) (simp add: sp join_dir [OF D c(1) hdc])
  with snoc.IH [OF ks] show ?case by (simp add: dir_of_snoc)
qed


lemma splitext_plain_py:
  assumes "plain_name c"
  shows "splitext (c @ ''.py'') = (c, ''.py'')"
proof -
  from assms have c: "c \<noteq> []" "CHR ''/'' \<notin> set c" "CHR ''.'' \<notin> set c"
    by (simp_all add: plain_name_def)
  then have "hd c \<in> set c" "hd c \<noteq> CHR ''.''" using hd_in_set by metis+
  then have "\<exists>x \<in> set c. x \<noteq> CHR ''.''" by blast
  with c(2) show ?thesis
    using splitext_ext [of "''py''" c] by (simp add: rfind_none)
qed

lemma splitext_dir_py:
  assumes "plain_name c"
  shows "splitext (D @ CHR ''/'' # c @ ''.py'') = (D @ CHR ''/'' # c, ''.py'')"
proof -
  from assms have c: "c \<noteq> []" "CHR ''/'' \<notin> set c" "CHR ''.'' \<notin> set c"
    by (simp_all add: plain_name_def)
  then have "hd c \<in> set c" "hd c \<noteq> CHR ''.''" using hd_in_set by metis+
  then have "\<exists>x \<in> set c. x \<noteq> CHR ''.''" by blast
  moreover have "nat (rfind CHR ''/'' (D @ CHR ''/'' # c) + 1) = Suc (length D)"
    using c(2) by (rule cut_last)
  ultimately show ?thesis
    using splitext_ext [of "''py''" "D @ CHR ''/'' # c"] by simp
qed

lemma getpackage_leaf:
  assumes "R \<noteq> []" "last R \<noteq> CHR ''/''" "\<not> contains R ''//''" "\<not> ispackage e R"
    and "list_all plain_name ks" "list_all (ispackage e) (dirs_below R ks)"
    and "plain_name c"
  shows "getpackage e (Some (dir_of R (ks @ [c]) @ ''.py''))
     = Inr (Some (str_join ''.'' (ks @ (if c = ''__init__'' then [] else [c]))))"
proof -
  let ?D = "dir_of R ks"
  let ?p = "?D @ CHR ''/'' # c @ ''.py''"
  from assms(7) have c: "CHR ''/'' \<notin> set (c @ ''.py'')"
    by (simp add: plain_name_def)
  from dir_of_tidy [OF assms(1,2,5)] have D: "?D \<noteq> []" "last ?D \<noteq> CHR ''/''" by simp_all
  have src: "src (Some ?p) = Some ?p"
    by (simp add: src_def splitext_dir_py [OF assms(7)])
  have ends: "endswith ?p ''.py''"
    using endswith_append [of "?D @ CHR ''/'' # c" "''.py''"] by simp
  have base: "basename ?p = c @ ''.py''"
    using c by (rule basename_sep)
  have sp: "split ?p = (?D, c @ ''.py'')"
    using c D by (rule split_dir)
  have chain: "package_chain e ?D = ks"
    using assms(1-6) by (rule chain_dir)
  have "module_name_from_path e ?p
      = Some (str_join ''.'' (ks @ (if c = ''__init__'' then [] else [c])))"
    by (simp add: module_name_from_path_def src ends base sp chain
        splitext_plain_py [OF assms(7)])
  then show ?thesis
    by (simp add: getpackage_chain dir_of_snoc)
qed

lemma pieces_append:
  "c \<notin> set w \<Longrightarrow> pieces c (w @ r) = (w @ fst (pieces c r), snd (pieces c r))"
  by (induction w) (auto split: prod.splits)

lemma str_split_join:
  assumes "list_all plain_name (k # ks)"
  shows "str_split CHR ''.'' (str_join ''.'' (k # ks)) = k # ks"
proof -
  have "pieces CHR ''.'' (str_join ''.'' (k # ks)) = (k, ks)"
    using assms
  proof (induction ks arbitrary: k)
    case Nil
    then have "CHR ''.'' \<notin> set k" by (simp add: plain_name_def)
    from pieces_append [OF this, of "[]"] show ?case by simp
  next
    case (Cons a ks)
    then have "plain_name k" and "list_all plain_name (a # ks)"
      by simp_all
    then have k: "CHR ''.'' \<notin> set k" and "list_all plain_name (a # ks)"
      by (simp_all add: plain_name_def)
    from Cons.IH [OF this(2)] have "pieces CHR ''.'' (str_join ''.'' (a # ks)) = (a, ks)" .
    then have "pieces CHR ''.'' (CHR ''.'' # str_join ''.'' (a # ks)) = ([], a # ks)"
      by simp
    with pieces_append [OF k, of "CHR ''.'' # str_join ''.'' (a # ks)"] show ?case
      by simp
  qed
  then show ?thesis by (simp add: str_split_def)
qed

lemma str_join_slash: "R @ CHR ''/'' # str_join ''/'' (k # ks) = dir_of R (k # ks)"
proof (induction ks arbitrary: R k)
  case Nil
  show ?case by simp
next
  case (Cons a ks)
  have "R @ CHR ''/'' # str_join ''/'' (k # a # ks)
      = (R @ CHR ''/'' # k) @ CHR ''/'' # str_join ''/'' (a # ks)"
    by simp
  also have "\<dots> = dir_of (R @ CHR ''/'' # k) (a # ks)"
    by (rule Cons.IH)
  finally show ?case by simp
qed

lemma str_join_hd: "k \<noteq> [] \<Longrightarrow> str_join sep (k # ks) \<noteq> [] \<and> hd (str_join sep (k # ks)) = hd k"
  by (cases ks) simp_all

lemma getfilename_candidates:
  assumes "R \<noteq> []" "last R \<noteq> CHR ''/''" "list_all plain_name (k # ks)"
    and "(case relativeTo of None \<Rightarrow> getcwd e | Some r \<Rightarrow> r) = R"
  shows "getfilename e (str_join ''.'' (k # ks)) relativeTo
     = find (path_exists e) [dir_of R (k # ks) @ ''/__init__.py'', dir_of R (k # ks) @ ''.py'']"
proof -
  from assms(3) have "plain_name k" by simp
  then have "k \<noteq> []" "CHR ''/'' \<notin> set k" by (simp_all add: plain_name_def)
  then have k: "k \<noteq> []" "hd k \<noteq> CHR ''/''"
    using hd_in_set by metis+
  with str_join_hd [of k "''/''" ks]
  have "join R (str_join ''/'' (k # ks)) = R @ CHR ''/'' # str_join ''/'' (k # ks)"
    using assms(1,2) by (intro join_dir) simp_all
  then have "join R (str_join ''/'' (k # ks)) = dir_of R (k # ks)"
    by (simp only: str_join_slash)
  then show ?thesis
    by (simp add: getfilename_def assms(4) str_split_join [OF assms(3)] del: dir_of.simps)
qed


lemma getpackage_src:
  assumes "src (Some p) = Some s"
  shows "getpackage e (Some p) = getpackage e (Some s)"
proof -
  from src_src_Some [of p] assms have "src (Some s) = Some s" by simp
  with assms show ?thesis by (simp add: getpackage_def)
qed

text \<open>
  Claim C4, as amended. Let \<open>R\<close> be a directory that is not a package directory (a path
  that is not empty and has no trailing or doubled slash), \<open>k1, ..., kn\<close> and \<open>c\<close> plain
  names, and every directory \<^verbatim>\<open>R/k1/.../ki\<close> a package directory. Let \<open>p\<close> be a file whose
  source file, \<^verbatim>\<open>src(p)\<close>, is \<^verbatim>\<open>R/k1/.../kn/c.py\<close> and exists: the module file itself, its
  \<^verbatim>\<open>.pyc\<close> or \<^verbatim>\<open>.pyo\<close>, or, with \<open>c\<close> = \<^verbatim>\<open>__init__\<close> and at least one \<open>ki\<close>, the
  \<^verbatim>\<open>__init__\<close> file of the package \<^verbatim>\<open>R/k1/.../kn\<close>. For a module file let
  \<^verbatim>\<open>R/k1/.../kn/c\<close> be a package directory if an \<^verbatim>\<open>__init__.py\<close> exists in it. Then
  \<^verbatim>\<open>getpackage(p)\<close> is the dotted name \<open>m\<close> (\<^verbatim>\<open>k1. ... .kn.c\<close>, or \<^verbatim>\<open>k1. ... .kn\<close> for an
  \<^verbatim>\<open>__init__\<close> file), and the round trip is a fixed point when \<^verbatim>\<open>getfilename\<close> searches from
  \<open>R\<close> (\<open>R\<close> is \<^verbatim>\<open>relativeTo\<close>, or the working directory when \<^verbatim>\<open>relativeTo\<close> is \<^verbatim>\<open>None\<close>):
  \<^verbatim>\<open>getpackage(getfilename(getpackage(p), relativeTo))\<close> equals \<^verbatim>\<open>getpackage(p)\<close>.
\<close>

theorem roundtrip_from_package_root:
  assumes "R \<noteq> []" "last R \<noteq> CHR ''/''" "\<not> contains R ''//''" "\<not> ispackage e R"
    and "list_all plain_name ks" "plain_name c" "c = ''__init__'' \<longrightarrow> ks \<noteq> []"
    and "list_all (ispackage e) (dirs_below R ks)"
    and "src (Some p) = Some (dir_of R (ks @ [c]) @ ''.py'')"
    and "path_exists e (dir_of R (ks @ [c]) @ ''.py'')"
    and "c \<noteq> ''__init__'' \<and> path_exists e (dir_of R (ks @ [c]) @ ''/__init__.py'')
           \<longrightarrow> ispackage e (dir_of R (ks @ [c]))"
    and "(case relativeTo of None \<Rightarrow> getcwd e | Some r \<Rightarrow> r) = R"
    and "m = str_join ''.'' (ks @ (if c = ''__init__'' then [] else [c]))"
  shows "getpackage e (Some p) = Inr (Some m) \<and>
    getpackage e (getfilename e m relativeTo) = Inr (Some m)"
proof -
  let ?s = "dir_of R (ks @ [c]) @ ''.py''"
  have src_case: "getpackage e (Some ?s) = Inr (Some m)"
    using getpackage_leaf [OF assms(1-5,8,6)] assms(13) by simp
  then have first: "getpackage e (Some p) = Inr (Some m)"
    using getpackage_src [OF assms(9)] by simp
  have init: "plain_name ''__init__''" by (simp add: plain_name_def)
  have second: "getpackage e (getfilename e m relativeTo) = Inr (Some m)"
  proof (cases "c = ''__init__''")
    case True
    with assms(7) obtain k ks' where ks: "ks = k # ks'" by (cases ks) auto
    from True assms(13) have m: "m = str_join ''.'' ks" by simp
    have "getfilename e m relativeTo
       = find (path_exists e) [dir_of R ks @ ''/__init__.py'', dir_of R ks @ ''.py'']"
      using getfilename_candidates [OF assms(1,2) _ assms(12), of k ks'] assms(5)
      by (simp only: ks m)
    moreover have "?s = dir_of R ks @ ''/__init__.py''"
      using True by (simp add: dir_of_snoc)
    ultimately have "getfilename e m relativeTo = Some ?s"
      using assms(10) by simp
    with src_case show ?thesis by simp
  next
    case False
    let ?cs = "ks @ [c]"
    from False assms(13) have m: "m = str_join ''.'' ?cs" by simp
    from assms(5,6) have plain: "list_all plain_name ?cs" by simp
    obtain k ks' where cs: "?cs = k # ks'" by (cases ?cs) auto
    have cand: "getfilename e m relativeTo
       = find (path_exists e) [dir_of R ?cs @ ''/__init__.py'', dir_of R ?cs @ ''.py'']"
      using getfilename_candidates [OF assms(1,2) _ assms(12), of k ks'] plain
      by (simp only: cs m)
    show ?thesis
    proof (cases "path_exists e (dir_of R ?cs @ ''/__init__.py'')")
      case exists: True
      with False assms(11) have "ispackage e (dir_of R ?cs)" by simp
      with assms(8) have "list_all (ispackage e) (dirs_below R ?cs)"
        by (simp add: dirs_below_snoc)
      moreover have eq: "dir_of R (?cs @ [''__init__'']) @ ''.py'' = dir_of R ?cs @ ''/__init__.py''"
        by (subst dir_of_snoc) simp
      ultimately have "getpackage e (Some (dir_of R ?cs @ ''/__init__.py'')) = Inr (Some m)"
        using getpackage_leaf [OF assms(1-4) plain _ init, unfolded eq] by (simp add: m)
      with cand exists show ?thesis by simp
    next
      case absent: False
      with cand assms(10) have "getfilename e m relativeTo = Some ?s" by simp
      with src_case show ?thesis by simp
    qed
  qed
  from first second show ?thesis by simp
qed

lemma env_proj_packages:
  "\<not> ispackage env_proj ''/other''" "\<not> ispackage env_proj ''/proj''"
  "ispackage env_proj ''/proj/pkg''"
  by (simp_all add: ispackage_def env_proj_def mk_env_def split_def basename_def rfind_def
      rstrip_def join_def startswith_def endswith_def src_def splitext_def)

theorem roundtrip_from_package_root_witness:
  "\<not> ispackage env_proj ''/proj'' \<and> ispackage env_proj ''/proj/pkg'' \<and>
   path_exists env_proj ''/proj/pkg/foo.py'' \<and> path_exists env_proj ''/proj/pkg/__init__.py'' \<and>
   getpackage env_proj (Some ''/proj/pkg/foo.py'') = Inr (Some ''pkg.foo'') \<and>
   getpackage env_proj (getfilename env_proj ''pkg.foo'' (Some ''/proj'')) = Inr (Some ''pkg.foo'') \<and>
   getpackage env_proj (Some ''/proj/pkg/foo.pyc'') = Inr (Some ''pkg.foo'') \<and>
   getpackage env_proj (Some ''/proj/pkg/__init__.py'') = Inr (Some ''pkg'') \<and>
   getpackage env_proj (getfilename env_proj ''pkg'' (Some ''/proj'')) = Inr (Some ''pkg'')"
proof -
  have ex: "path_exists env_proj ''/proj/pkg/foo.py''"
      "path_exists env_proj ''/proj/pkg/__init__.py''"
      "\<not> path_exists env_proj ''/proj/pkg/foo/__init__.py''"
    by (simp_all add: env_proj_def mk_env_def)
  have s: "src (Some ''/proj/pkg/foo.py'') = Some ''/proj/pkg/foo.py''"
      "src (Some ''/proj/pkg/foo.pyc'') = Some ''/proj/pkg/foo.py''"
      "src (Some ''/proj/pkg/__init__.py'') = Some ''/proj/pkg/__init__.py''"
    by (simp_all add: src_def splitext_def rfind_def)
  have a: "getpackage env_proj (Some ''/proj/pkg/foo.py'') = Inr (Some ''pkg.foo'') \<and>
      getpackage env_proj (getfilename env_proj ''pkg.foo'' (Some ''/proj'')) = Inr (Some ''pkg.foo'')"
    by (rule roundtrip_from_package_root [where R = "''/proj''" and ks = "[''pkg'']" and c = "''foo''"])
      (simp_all add: env_proj_packages ex s plain_name_def startswith_def)
  have b: "getpackage env_proj (Some ''/proj/pkg/foo.pyc'') = Inr (Some ''pkg.foo'') \<and>
      getpackage env_proj (getfilename env_proj ''pkg.foo'' (Some ''/proj'')) = Inr (Some ''pkg.foo'')"
    by (rule roundtrip_from_package_root [where R = "''/proj''" and ks = "[''pkg'']" and c = "''foo''"])
      (simp_all add: env_proj_packages ex s plain_name_def startswith_def)
  have c: "getpackage env_proj (Some ''/proj/pkg/__init__.py'') = Inr (Some ''pkg'') \<and>
      getpackage env_proj (getfilename env_proj ''pkg'' (Some ''/proj'')) = Inr (Some ''pkg'')"
    by (rule roundtrip_from_package_root [where R = "''/proj''" and ks = "[''pkg'']" and c = "''__init__''"])
      (simp_all add: env_proj_packages ex s plain_name_def startswith_def)
  from a b c env_proj_packages ex show ?thesis by simp
qed

text \<open>
  Claim C4 as stated fails. \<^verbatim>\<open>getfilename\<close> searches below the working directory, not
  below the directory the file came from: for the absolute, existing file
  \<^verbatim>\<open>/other/foo.py\<close> and the working directory \<^verbatim>\<open>/proj/pkg\<close>, \<^verbatim>\<open>getpackage\<close> gives
  \<^verbatim>\<open>foo\<close>, \<^verbatim>\<open>getfilename("foo")\<close> finds \<^verbatim>\<open>/proj/pkg/foo.py\<close>, and \<^verbatim>\<open>getpackage\<close> of
  that is \<^verbatim>\<open>pkg.foo\<close>.
\<close>

theorem roundtrip_counterexample:
  "isabs ''/other/foo.py'' \<and> path_exists env_proj ''/other/foo.py'' \<and>
   getpackage env_proj (Some ''/other/foo.py'') = Inr (Some ''foo'') \<and>
   getfilename env_proj ''foo'' None = Some ''/proj/pkg/foo.py'' \<and>
   getpackage env_proj (Some ''/proj/pkg/foo.py'') = Inr (Some ''pkg.foo'')"
proof -
  have ex: "path_exists env_proj ''/other/foo.py''" "path_exists env_proj ''/proj/pkg/foo.py''"
      "\<not> path_exists env_proj ''/proj/pkg/foo/__init__.py''" "getcwd env_proj = ''/proj/pkg''"
    by (simp_all add: env_proj_def mk_env_def)
  have a: "getpackage env_proj (Some (dir_of ''/other'' ([] @ [''foo'']) @ ''.py''))
      = Inr (Some (str_join ''.'' ([] @ (if ''foo'' = ''__init__'' then [] else [''foo'']))))"
    by (rule getpackage_leaf) (simp_all add: env_proj_packages plain_name_def startswith_def)
  have b: "getpackage env_proj (Some (dir_of ''/proj'' ([''pkg''] @ [''foo'']) @ ''.py''))
      = Inr (Some (str_join ''.'' ([''pkg''] @ (if ''foo'' = ''__init__'' then [] else [''foo'']))))"
    by (rule getpackage_leaf) (simp_all add: env_proj_packages plain_name_def startswith_def)
  have c: "getfilename env_proj (str_join ''.'' [''foo'']) None
      = find (path_exists env_proj)
          [dir_of ''/proj/pkg'' [''foo''] @ ''/__init__.py'', dir_of ''/proj/pkg'' [''foo''] @ ''.py'']"
    by (rule getfilename_candidates) (simp_all add: plain_name_def ex)
  from a b c ex show ?thesis
    by (simp add: isabs_def startswith_def)
qed

end
